theory Spec2Isabelle
  imports Main "HOL-Library.Word"
begin

unbundle bit_operations_syntax

section \<open>ProtoToArgsParser (src/trace_processor/util/proto_to_args_parser.cc)\<close>

subsection \<open>Status\<close>

text \<open>
  \<open>base::Status\<close> is either ok or an error carrying a message. The two messages the
  parser itself produces are kept as constructors with the arguments of their format
  string (the text of the second one is made by \<open>printf\<close>); a status made by an
  override handler carries its own message.
\<close>

datatype error =
    FailedToFindProtoDescriptor
  | UnsupportedFieldType string string "32 word"
  | HandlerError string

datatype Status = OkStatus | ErrStatus error

subsection \<open>Key and Delegate\<close>

record Key =
  flat_key :: string
  key :: string

text \<open>
  A double handed to \<open>AddDouble\<close> is kept as the bits it was read from: the eight bytes
  of a double field, or the four bytes of a float field that the code widens.
\<close>

datatype double = DoubleBits "64 word" | FloatBits "32 word"

text \<open>
  The Delegate is an abstract sink whose methods return nothing, so what a parse does to
  it is the sequence of calls it receives. Each call carries the \<open>Key\<close> as it was at
  the moment of the call.
\<close>

datatype delegate_call =
    AddInteger Key int
  | AddUnsignedInteger Key nat
  | AddBoolean Key bool
  | AddDouble Key double
  | AddString Key string

subsection \<open>Wire fields\<close>

text \<open>
  Modelled from the spec: \<open>protozero::Field\<close>, \<open>protozero::ConstBytes\<close> and
  \<open>protozero::ProtoDecoder\<close> are not in the sources at hand. A byte span is taken as the
  finite sequence of wire fields that \<open>ReadField\<close> yields from it, in wire order, until
  the first invalid field. A wire field has its tag, the 64-bit payload of a varint or
  fixed field, and for a length-delimited field the characters (\<open>as_string\<close>) and the
  span (\<open>as_bytes\<close>) of its payload. The typed accessors reinterpret the payload.
\<close>

datatype Field = Field (id_field: nat) (int_value: "64 word") (as_string: string)
  (as_bytes: "Field list")

type_synonym ConstBytes = "Field list"

definition as_int32 :: "Field \<Rightarrow> int" where
  "as_int32 f = sint (ucast (int_value f) :: 32 word)"

definition as_uint32 :: "Field \<Rightarrow> nat" where
  "as_uint32 f = unat (ucast (int_value f) :: 32 word)"

definition as_int64 :: "Field \<Rightarrow> int" where
  "as_int64 f = sint (int_value f)"

definition as_uint64 :: "Field \<Rightarrow> nat" where
  "as_uint64 f = unat (int_value f)"

definition ZigZagDecode :: "'a::len word \<Rightarrow> 'a word" where
  "ZigZagDecode v = (drop_bit 1 v) XOR (- (v AND 1))"

definition as_sint32 :: "Field \<Rightarrow> int" where
  "as_sint32 f = sint (ZigZagDecode (ucast (int_value f) :: 32 word))"

definition as_sint64 :: "Field \<Rightarrow> int" where
  "as_sint64 f = sint (ZigZagDecode (int_value f))"

definition as_bool :: "Field \<Rightarrow> bool" where
  "as_bool f = (int_value f \<noteq> 0)"

definition as_double :: "Field \<Rightarrow> double" where
  "as_double f = DoubleBits (int_value f)"

definition as_float :: "Field \<Rightarrow> double" where
  "as_float f = FloatBits (ucast (int_value f))"

subsection \<open>Descriptors\<close>

text \<open>
  Modelled from the spec: \<open>DescriptorPool\<close>, \<open>ProtoDescriptor\<close> and
  \<open>FieldDescriptor\<close> (descriptors.h) are not in the sources at hand. A field descriptor
  exposes its name, declared type number (\<open>type()\<close>, here \<open>type_fd\<close>), repeated and
  extension flags and resolved type name; a descriptor finds a field by tag and an enum
  name by value; the pool maps a type name to its descriptor (\<open>FindDescriptorIdx\<close>
  followed by \<open>descriptors()[idx]\<close>).
\<close>

record FieldDescriptor =
  name :: string
  type_fd :: "32 word"
  is_repeated :: bool
  is_extension :: bool
  resolved_type_name :: string

record ProtoDescriptor =
  FindFieldByTag :: "nat \<Rightarrow> FieldDescriptor option"
  FindEnumString :: "int \<Rightarrow> string option"

type_synonym DescriptorPool = "string \<Rightarrow> ProtoDescriptor option"

text \<open>The numbers of \<open>FieldDescriptorProto::Type\<close> (descriptor.proto).\<close>

abbreviation TYPE_DOUBLE :: "32 word" where "TYPE_DOUBLE \<equiv> 1"
abbreviation TYPE_FLOAT :: "32 word" where "TYPE_FLOAT \<equiv> 2"
abbreviation TYPE_INT64 :: "32 word" where "TYPE_INT64 \<equiv> 3"
abbreviation TYPE_UINT64 :: "32 word" where "TYPE_UINT64 \<equiv> 4"
abbreviation TYPE_INT32 :: "32 word" where "TYPE_INT32 \<equiv> 5"
abbreviation TYPE_FIXED64 :: "32 word" where "TYPE_FIXED64 \<equiv> 6"
abbreviation TYPE_FIXED32 :: "32 word" where "TYPE_FIXED32 \<equiv> 7"
abbreviation TYPE_BOOL :: "32 word" where "TYPE_BOOL \<equiv> 8"
abbreviation TYPE_STRING :: "32 word" where "TYPE_STRING \<equiv> 9"
abbreviation TYPE_GROUP :: "32 word" where "TYPE_GROUP \<equiv> 10"
abbreviation TYPE_MESSAGE :: "32 word" where "TYPE_MESSAGE \<equiv> 11"
abbreviation TYPE_BYTES :: "32 word" where "TYPE_BYTES \<equiv> 12"
abbreviation TYPE_UINT32 :: "32 word" where "TYPE_UINT32 \<equiv> 13"
abbreviation TYPE_ENUM :: "32 word" where "TYPE_ENUM \<equiv> 14"
abbreviation TYPE_SFIXED32 :: "32 word" where "TYPE_SFIXED32 \<equiv> 15"
abbreviation TYPE_SFIXED64 :: "32 word" where "TYPE_SFIXED64 \<equiv> 16"
abbreviation TYPE_SINT32 :: "32 word" where "TYPE_SINT32 \<equiv> 17"
abbreviation TYPE_SINT64 :: "32 word" where "TYPE_SINT64 \<equiv> 18"

subsection \<open>The parser's state\<close>

text \<open>
  The parser owns \<open>key_prefix_\<close> and is handed a Delegate; \<open>delegate\<close> is the sequence
  of calls the Delegate has received so far. The overrides (\<open>overrides_\<close>) are
  registered before a parse and only read during it, so they are an argument.
\<close>

record parser =
  key_prefix :: Key
  delegate :: "delegate_call list"

text \<open>
  A \<open>ParsingOverride\<close> is called with the field and the Delegate and returns an optional
  status. The Delegate tells it nothing, so what it does is a function of the field: the
  status it returns, if any, and the calls it makes on the Delegate, in order.
\<close>

type_synonym ParsingOverride = "Field \<Rightarrow> Status option \<times> delegate_call list"

type_synonym overrides = "string \<Rightarrow> ParsingOverride option"

definition AddParsingOverride :: "string \<Rightarrow> ParsingOverride \<Rightarrow> overrides \<Rightarrow> overrides" where
  "AddParsingOverride field func ov = ov(field \<mapsto> func)"

definition call :: "delegate_call \<Rightarrow> parser \<Rightarrow> parser" where
  "call c p = p\<lparr>delegate := delegate p @ [c]\<rparr>"

subsection \<open>ScopedStringAppender\<close>

text \<open>
  The constructor appends to the destination, with a dot in between unless the
  destination is empty. The destructor is \<open>dest->erase(old_size)\<close>, which cuts the
  string back to its first \<open>old_size\<close> characters. (\<open>std::string::erase\<close> throws when
  \<open>old_size\<close> is beyond the end of the string; \<open>old_size_in_range\<close> below shows that
  \<open>ParseField\<close> never calls it so.)
\<close>

definition ScopedStringAppender :: "string \<Rightarrow> string \<Rightarrow> string" where
  "ScopedStringAppender app dest =
     (if dest = [] then app else dest @ ''.'' @ app)"

definition erase :: "nat \<Rightarrow> string \<Rightarrow> string" where
  "erase old_size dest = take old_size dest"

subsection \<open>std::to_string\<close>

definition digit :: "nat \<Rightarrow> char" where
  "digit d = ''0123456789'' ! d"

function to_string_nat :: "nat \<Rightarrow> string" where
  "to_string_nat n = (if n < 10 then [digit n] else to_string_nat (n div 10) @ [digit (n mod 10)])"
  by pat_completeness auto
termination
  by (relation "measure (\<lambda>n. n)") auto

definition to_string :: "int \<Rightarrow> string" where
  "to_string i = (if i < 0 then ''-'' @ to_string_nat (nat (- i)) else to_string_nat (nat i))"

subsection \<open>ParseSimpleField\<close>

definition ParseSimpleField ::
  "DescriptorPool \<Rightarrow> FieldDescriptor \<Rightarrow> Field \<Rightarrow> parser \<Rightarrow> Status \<times> parser" where
  "ParseSimpleField pool descriptor field p =
     (let t = type_fd descriptor; k = key_prefix p in
      if t = TYPE_INT32 \<or> t = TYPE_SFIXED32 \<or> t = TYPE_FIXED32 then
        (OkStatus, call (AddInteger k (as_int32 field)) p)
      else if t = TYPE_SINT32 then
        (OkStatus, call (AddInteger k (as_sint32 field)) p)
      else if t = TYPE_INT64 \<or> t = TYPE_SFIXED64 \<or> t = TYPE_FIXED64 then
        (OkStatus, call (AddInteger k (as_int64 field)) p)
      else if t = TYPE_SINT64 then
        (OkStatus, call (AddInteger k (as_sint64 field)) p)
      else if t = TYPE_UINT32 then
        (OkStatus, call (AddUnsignedInteger k (as_uint32 field)) p)
      else if t = TYPE_UINT64 then
        (OkStatus, call (AddUnsignedInteger k (as_uint64 field)) p)
      else if t = TYPE_BOOL then
        (OkStatus, call (AddBoolean k (as_bool field)) p)
      else if t = TYPE_DOUBLE then
        (OkStatus, call (AddDouble k (as_double field)) p)
      else if t = TYPE_FLOAT then
        (OkStatus, call (AddDouble k (as_float field)) p)
      else if t = TYPE_STRING then
        (OkStatus, call (AddString k (as_string field)) p)
      else if t = TYPE_ENUM then
        (case pool (resolved_type_name descriptor) of
           None \<Rightarrow> (OkStatus, call (AddInteger k (as_int32 field)) p)
         | Some enum_descriptor \<Rightarrow>
             (case FindEnumString enum_descriptor (as_int32 field) of
                None \<Rightarrow> (OkStatus, call (AddInteger k (as_int32 field)) p)
              | Some enum_string \<Rightarrow> (OkStatus, call (AddString k enum_string) p)))
      else
        (ErrStatus (UnsupportedFieldType (name descriptor) (resolved_type_name descriptor) t), p))"

subsection \<open>MaybeApplyOverride\<close>

definition MaybeApplyOverride :: "overrides \<Rightarrow> Field \<Rightarrow> parser \<Rightarrow> Status option \<times> parser" where
  "MaybeApplyOverride ov field p =
     (case ov (flat_key (key_prefix p)) of
        None \<Rightarrow> (None, p)
      | Some func \<Rightarrow>
          (case func field of (status, calls) \<Rightarrow> (status, p\<lparr>delegate := delegate p @ calls\<rparr>)))"

subsection \<open>ParseMessage and ParseField\<close>

text \<open>
  The local \<open>is_allowed\<close> of \<open>ParseMessage\<close>: the field is an extension, or no allowlist
  was given, or \<open>std::find\<close> finds the tag in the allowlist.
\<close>

definition is_allowed :: "FieldDescriptor \<Rightarrow> nat list option \<Rightarrow> nat \<Rightarrow> bool" where
  "is_allowed field allowed_fields tag =
     (is_extension field \<or> allowed_fields = None \<or> tag \<in> set (the allowed_fields))"

text \<open>
  \<open>ParseMessage_loop\<close> is the \<open>for\<close> loop of \<open>ParseMessage\<close> over the fields the
  decoder reads; \<open>repeated_field_index\<close> is the \<open>unordered_map\<close> of the call, whose
  \<open>operator[]\<close> reads 0 for a tag it has not seen. Its counts are C++ \<open>int\<close>s, for which
  overflow is undefined; they are unbounded integers here, so the model says nothing
  about a message with \<open>2^31\<close> occurrences of one tag. Tags are natural numbers: the
  code only compares them and uses them as keys.

  In \<open>ParseField\<close> the two \<open>ScopedStringAppender\<close>s are constructed before anything
  else and destroyed after the returned status has been computed, on every return; the
  destructors are the two \<open>erase\<close>s of the result.
\<close>

function (sequential)
  ParseMessage ::
    "DescriptorPool \<Rightarrow> overrides \<Rightarrow> ConstBytes \<Rightarrow> string \<Rightarrow> nat list option \<Rightarrow> parser
       \<Rightarrow> Status \<times> parser"
and ParseMessage_loop ::
    "DescriptorPool \<Rightarrow> overrides \<Rightarrow> ProtoDescriptor \<Rightarrow> nat list option \<Rightarrow> Field list
       \<Rightarrow> (nat \<Rightarrow> int) \<Rightarrow> parser \<Rightarrow> Status \<times> (nat \<Rightarrow> int) \<times> parser"
and ParseField ::
    "DescriptorPool \<Rightarrow> overrides \<Rightarrow> FieldDescriptor \<Rightarrow> int \<Rightarrow> Field \<Rightarrow> parser
       \<Rightarrow> Status \<times> parser"
where
  "ParseMessage pool ov cb type allowed_fields p =
     (case pool type of
        None \<Rightarrow> (ErrStatus FailedToFindProtoDescriptor, p)
      | Some descriptor \<Rightarrow>
          (case ParseMessage_loop pool ov descriptor allowed_fields cb (\<lambda>_. 0) p of
             (status, repeated_field_index, p') \<Rightarrow> (status, p')))"
| "ParseMessage_loop pool ov descriptor allowed_fields [] repeated_field_index p =
     (OkStatus, repeated_field_index, p)"
| "ParseMessage_loop pool ov descriptor allowed_fields (f # rest) repeated_field_index p =
     (case FindFieldByTag descriptor (id_field f) of
        None \<Rightarrow> ParseMessage_loop pool ov descriptor allowed_fields rest repeated_field_index p
      | Some field \<Rightarrow>
          if \<not> is_allowed field allowed_fields (id_field f)
          then ParseMessage_loop pool ov descriptor allowed_fields rest repeated_field_index p
          else
            (case ParseField pool ov field (repeated_field_index (id_field f)) f p of
               (ErrStatus e, p') \<Rightarrow> (ErrStatus e, repeated_field_index, p')
             | (OkStatus, p') \<Rightarrow>
                 ParseMessage_loop pool ov descriptor allowed_fields rest
                   (if is_repeated field
                    then repeated_field_index
                           (id_field f := repeated_field_index (id_field f) + 1)
                    else repeated_field_index)
                   p'))"
| "ParseField pool ov field_descriptor repeated_field_number field p =
     (let prefix_part =
            (if is_repeated field_descriptor
             then name field_descriptor @ ''['' @ to_string repeated_field_number @ '']''
             else name field_descriptor);
          old_size_key = length (key (key_prefix p));
          old_size_flat_key = length (flat_key (key_prefix p));
          p1 = p\<lparr>key_prefix :=
                   \<lparr>flat_key = ScopedStringAppender (name field_descriptor) (flat_key (key_prefix p)),
                    key = ScopedStringAppender prefix_part (key (key_prefix p))\<rparr>\<rparr>;
          result =
            (case MaybeApplyOverride ov field p1 of
               (Some status, p2) \<Rightarrow> (status, p2)
             | (None, p2) \<Rightarrow>
                 if type_fd field_descriptor = TYPE_MESSAGE
                 then ParseMessage pool ov (as_bytes field) (resolved_type_name field_descriptor)
                        None p2
                 else ParseSimpleField pool field_descriptor field p2)
      in (fst result,
          (snd result)\<lparr>key_prefix :=
             \<lparr>flat_key = erase old_size_flat_key (flat_key (key_prefix (snd result))),
              key = erase old_size_key (key (key_prefix (snd result)))\<rparr>\<rparr>))"
  by pat_completeness auto
termination
proof (relation "measure (\<lambda>x. case x of
         Inl (pool, ov, cb, type, allowed, p) \<Rightarrow> 2 * size_list size cb + 1
       | Inr (Inl (pool, ov, d, allowed, fs, idx, p)) \<Rightarrow> 2 * size_list size fs
       | Inr (Inr (pool, ov, fd, n, f, p)) \<Rightarrow> 2 * size f + 1)", auto)
  fix field :: Field
  show "size_list size (as_bytes field) < size field"
    by (cases field) simp
qed

declare ParseMessage.simps [simp del] ParseField.simps [simp del]

subsection \<open>Helpers for stating the properties\<close>

text \<open>
  The parser as the two \<open>ScopedStringAppender\<close>s of \<open>ParseField\<close> leave it when they
  are constructed: the field's name is appended to \<open>flat_key\<close>, and the name with the
  bracketed index of a repeated field to \<open>key\<close>.
\<close>

definition scoped_prefix :: "FieldDescriptor \<Rightarrow> int \<Rightarrow> parser \<Rightarrow> parser" where
  "scoped_prefix fd n p =
     p\<lparr>key_prefix :=
         \<lparr>flat_key = ScopedStringAppender (name fd) (flat_key (key_prefix p)),
          key = ScopedStringAppender
                  (if is_repeated fd then name fd @ ''['' @ to_string n @ '']'' else name fd)
                  (key (key_prefix p))\<rparr>\<rparr>"

text \<open>The \<open>Key\<close> a Delegate call was made with.\<close>

fun call_key :: "delegate_call \<Rightarrow> Key" where
  "call_key (AddInteger k v) = k"
| "call_key (AddUnsignedInteger k v) = k"
| "call_key (AddBoolean k v) = k"
| "call_key (AddDouble k v) = k"
| "call_key (AddString k v) = k"

text \<open>A parser that has not entered any field, with a Delegate that has received nothing.\<close>

definition fresh :: parser where
  "fresh = \<lparr>key_prefix = \<lparr>flat_key = [], key = []\<rparr>, delegate = []\<rparr>"

subsection \<open>Example schemas\<close>

text \<open>
  The message type \<open>M\<close> with fields 1: int32 \<open>x\<close>, 2: repeated string \<open>y\<close>,
  3: message \<open>child\<close> of type \<open>C\<close>, where \<open>C\<close> has the one field 1: bool \<open>flag\<close>;
  and the bytes of \<open>x = 5\<close>, \<open>y = ["p", "q"]\<close>, \<open>child.flag = true\<close> as the decoder reads
  them.
\<close>

definition flag_fd :: FieldDescriptor where
  "flag_fd = \<lparr>name = ''flag'', type_fd = TYPE_BOOL, is_repeated = False,
               is_extension = False, resolved_type_name = ''''\<rparr>"

definition C_desc :: ProtoDescriptor where
  "C_desc =
     \<lparr>FindFieldByTag = (\<lambda>t. if t = 1 then Some flag_fd else None),
      FindEnumString = (\<lambda>_. None)\<rparr>"

definition x_fd :: FieldDescriptor where
  "x_fd = \<lparr>name = ''x'', type_fd = TYPE_INT32, is_repeated = False,
            is_extension = False, resolved_type_name = ''''\<rparr>"

definition y_fd :: FieldDescriptor where
  "y_fd = \<lparr>name = ''y'', type_fd = TYPE_STRING, is_repeated = True,
            is_extension = False, resolved_type_name = ''''\<rparr>"

definition child_fd :: FieldDescriptor where
  "child_fd = \<lparr>name = ''child'', type_fd = TYPE_MESSAGE, is_repeated = False,
                is_extension = False, resolved_type_name = ''C''\<rparr>"

definition M_desc :: ProtoDescriptor where
  "M_desc =
     \<lparr>FindFieldByTag = (\<lambda>t.
        if t = 1 then Some x_fd
        else if t = 2 then Some y_fd
        else if t = 3 then Some child_fd
        else None),
      FindEnumString = (\<lambda>_. None)\<rparr>"

definition MC_pool :: DescriptorPool where
  "MC_pool = (\<lambda>t. if t = ''M'' then Some M_desc else if t = ''C'' then Some C_desc else None)"

definition M_bytes :: ConstBytes where
  "M_bytes =
     [Field 1 5 [] [], Field 2 0 ''p'' [], Field 2 0 ''q'' [], Field 3 0 [] [Field 1 1 [] []]]"

text \<open>
  A second schema for the error paths: \<open>F\<close> has 1: bytes \<open>blob\<close> (a type
  \<open>ParseSimpleField\<close> has no case for), 2: int32 \<open>n\<close>, 3: enum \<open>color\<close> of type
  \<open>Color\<close>, 4: message \<open>inner\<close> of type \<open>F\<close> and 5: enum \<open>unk\<close> of a type the pool
  does not have; \<open>Color\<close> names the value 1 \<open>RED\<close>.
\<close>

definition blob_fd :: FieldDescriptor where
  "blob_fd = \<lparr>name = ''blob'', type_fd = TYPE_BYTES, is_repeated = False,
               is_extension = False, resolved_type_name = ''''\<rparr>"

definition n_fd :: FieldDescriptor where
  "n_fd = \<lparr>name = ''n'', type_fd = TYPE_INT32, is_repeated = False,
            is_extension = False, resolved_type_name = ''''\<rparr>"

definition color_fd :: FieldDescriptor where
  "color_fd = \<lparr>name = ''color'', type_fd = TYPE_ENUM, is_repeated = False,
                is_extension = False, resolved_type_name = ''Color''\<rparr>"

definition inner_fd :: FieldDescriptor where
  "inner_fd = \<lparr>name = ''inner'', type_fd = TYPE_MESSAGE, is_repeated = False,
                is_extension = False, resolved_type_name = ''F''\<rparr>"

definition unk_fd :: FieldDescriptor where
  "unk_fd = \<lparr>name = ''unk'', type_fd = TYPE_ENUM, is_repeated = False,
              is_extension = False, resolved_type_name = ''Missing''\<rparr>"

definition F_desc :: ProtoDescriptor where
  "F_desc =
     \<lparr>FindFieldByTag = (\<lambda>t.
        if t = 1 then Some blob_fd
        else if t = 2 then Some n_fd
        else if t = 3 then Some color_fd
        else if t = 4 then Some inner_fd
        else if t = 5 then Some unk_fd
        else None),
      FindEnumString = (\<lambda>_. None)\<rparr>"

definition Color_desc :: ProtoDescriptor where
  "Color_desc =
     \<lparr>FindFieldByTag = (\<lambda>_. None),
      FindEnumString = (\<lambda>v. if v = 1 then Some ''RED'' else None)\<rparr>"

definition F_pool :: DescriptorPool where
  "F_pool = (\<lambda>t. if t = ''F'' then Some F_desc
                  else if t = ''Color'' then Some Color_desc else None)"

text \<open>An override handler that makes no Delegate call and returns no status.\<close>

definition decline :: ParsingOverride where
  "decline field = (None, [])"

text \<open>An override handler that makes one Delegate call of its own and returns a failure.\<close>

definition refuse :: ParsingOverride where
  "refuse field =
     (Some (ErrStatus (HandlerError ''refused'')),
      [AddString \<lparr>flat_key = ''custom'', key = ''custom''\<rparr> (as_string field)])"

section \<open>Properties\<close>

subsection \<open>The key prefix is restored\<close>


lemma erase_ScopedStringAppender: "erase (length dest) (ScopedStringAppender app dest) = dest"
  by (simp add: erase_def ScopedStringAppender_def)

lemma key_prefix_call: "key_prefix (call c p) = key_prefix p"
  by (simp add: call_def)

lemma key_prefix_ParseSimpleField:
  "key_prefix (snd (ParseSimpleField pool fd f p)) = key_prefix p"
  by (simp add: ParseSimpleField_def Let_def key_prefix_call split: option.split)

lemma key_prefix_MaybeApplyOverride:
  "key_prefix (snd (MaybeApplyOverride ov f p)) = key_prefix p"
  by (simp add: MaybeApplyOverride_def split: option.split prod.split)

lemma key_prefix_preserved:
  "key_prefix (snd (ParseMessage pool ov cb type allowed p)) = key_prefix p"
  "key_prefix (snd (snd (ParseMessage_loop pool ov d allowed fs idx p))) = key_prefix p"
  "key_prefix (snd (ParseField pool ov fd n f p)) = key_prefix p"
proof (induction pool ov cb type allowed p and pool ov d allowed fs idx p and pool ov fd n f p
    rule: ParseMessage_ParseMessage_loop_ParseField.induct)
  case (1 pool ov cb type allowed_fields p)
  then show ?case
    by (simp add: ParseMessage.simps case_prod_beta split: option.split)
next
  case (2 pool ov descriptor allowed_fields repeated_field_index p)
  then show ?case by simp
next
  case (3 pool ov descriptor allowed_fields f rest repeated_field_index p)
  show ?case
  proof (cases "FindFieldByTag descriptor (id_field f)")
    case None
    with "3.IH"(1) show ?thesis by simp
  next
    case (Some fd)
    show ?thesis
    proof (cases "is_allowed fd allowed_fields (id_field f)")
      case False
      with Some "3.IH"(2) show ?thesis by simp
    next
      case True
      obtain st p' where pf: "ParseField pool ov fd (repeated_field_index (id_field f)) f p = (st, p')"
        by (cases "ParseField pool ov fd (repeated_field_index (id_field f)) f p")
      from "3.IH"(3)[OF Some] True pf have kp: "key_prefix p' = key_prefix p" by simp
      show ?thesis
      proof (cases st)
        case OkStatus
        with "3.IH"(4)[OF Some _ pf[symmetric]] True
        have "key_prefix (snd (snd (ParseMessage_loop pool ov descriptor allowed_fields rest
                (if is_repeated fd
                 then repeated_field_index(id_field f := repeated_field_index (id_field f) + 1)
                 else repeated_field_index) p'))) = key_prefix p'"
          by simp
        with Some True pf OkStatus kp show ?thesis by simp
      next
        case (ErrStatus e)
        with Some True pf kp show ?thesis by simp
      qed
    qed
  qed
next
  case (4 pool ov field_descriptor repeated_field_number field p)
  define prefix_part where "prefix_part =
    (if is_repeated field_descriptor
     then name field_descriptor @ ''['' @ to_string repeated_field_number @ '']''
     else name field_descriptor)"
  define p1 where "p1 = p\<lparr>key_prefix :=
     \<lparr>flat_key = ScopedStringAppender (name field_descriptor) (flat_key (key_prefix p)),
      key = ScopedStringAppender prefix_part (key (key_prefix p))\<rparr>\<rparr>"
  obtain r p2 where mo: "MaybeApplyOverride ov field p1 = (r, p2)"
    by (cases "MaybeApplyOverride ov field p1")
  have kp2: "key_prefix p2 = key_prefix p1"
    using key_prefix_MaybeApplyOverride[of ov field p1] mo by simp
  define result where "result =
    (case r of
       Some status \<Rightarrow> (status, p2)
     | None \<Rightarrow>
         if type_fd field_descriptor = TYPE_MESSAGE
         then ParseMessage pool ov (as_bytes field) (resolved_type_name field_descriptor) None p2
         else ParseSimpleField pool field_descriptor field p2)"
  have kr: "key_prefix (snd result) = key_prefix p1"
  proof (cases r)
    case None
    show ?thesis
    proof (cases "type_fd field_descriptor = TYPE_MESSAGE")
      case True
      from "4.IH"[OF prefix_part_def refl refl p1_def mo[symmetric] None True]
      show ?thesis using None True kp2 by (simp add: result_def)
    next
      case False
      then show ?thesis using None kp2 by (simp add: result_def key_prefix_ParseSimpleField)
    qed
  next
    case (Some st)
    then show ?thesis using kp2 by (simp add: result_def)
  qed
  have pf: "ParseField pool ov field_descriptor repeated_field_number field p =
    (fst result, (snd result)\<lparr>key_prefix :=
       \<lparr>flat_key = erase (length (flat_key (key_prefix p))) (flat_key (key_prefix (snd result))),
        key = erase (length (key (key_prefix p))) (key (key_prefix (snd result)))\<rparr>\<rparr>)"
    by (simp add: ParseField.simps Let_def result_def mo p1_def[symmetric] prefix_part_def[symmetric])
  show ?case
    by (simp add: pf kr p1_def erase_ScopedStringAppender)
qed

text \<open>
  When the destructors of \<open>ParseField\<close> run, on whatever return, both strings are at
  least as long as they were at the constructors: \<open>erase\<close> is never called beyond the end
  of the string.
\<close>

lemma old_size_in_range:
  assumes r: "r = (case MaybeApplyOverride ov f (scoped_prefix fd n p) of
               (Some status, p2) \<Rightarrow> (status, p2)
             | (None, p2) \<Rightarrow>
                 if type_fd fd = TYPE_MESSAGE
                 then ParseMessage pool ov (as_bytes f) (resolved_type_name fd) None p2
                 else ParseSimpleField pool fd f p2)"
  shows "length (key (key_prefix p)) \<le> length (key (key_prefix (snd r))) \<and>
         length (flat_key (key_prefix p)) \<le> length (flat_key (key_prefix (snd r)))"
proof -
  define q where "q = scoped_prefix fd n p"
  obtain st p2 where mo: "MaybeApplyOverride ov f q = (st, p2)"
    by (cases "MaybeApplyOverride ov f q")
  have "key_prefix p2 = key_prefix q"
    using key_prefix_MaybeApplyOverride [of ov f q] mo by simp
  then have "key_prefix (snd r) = key_prefix q"
    using r mo unfolding q_def [symmetric]
    by (cases st) (simp_all add: key_prefix_preserved(1) key_prefix_ParseSimpleField)
  then show ?thesis
    by (simp add: q_def scoped_prefix_def ScopedStringAppender_def)
qed

lemma parser_eq: "key_prefix (p::parser) = key_prefix q \<Longrightarrow> delegate p = delegate q \<Longrightarrow> p = q"
  by simp

lemma ParseField_scoped:
  "ParseField pool ov fd n f p =
     (case MaybeApplyOverride ov f (scoped_prefix fd n p) of
        (Some status, p2) \<Rightarrow> (status, p2\<lparr>key_prefix := key_prefix p\<rparr>)
      | (None, p2) \<Rightarrow>
          (let r = (if type_fd fd = TYPE_MESSAGE
                    then ParseMessage pool ov (as_bytes f) (resolved_type_name fd) None p2
                    else ParseSimpleField pool fd f p2)
           in (fst r, (snd r)\<lparr>key_prefix := key_prefix p\<rparr>)))"
proof -
  have kp: "key_prefix (snd (ParseField pool ov fd n f p)) = key_prefix p"
    by (rule key_prefix_preserved(3))
  show ?thesis
  proof (rule prod_eqI)
    show "fst (ParseField pool ov fd n f p) = fst (case MaybeApplyOverride ov f (scoped_prefix fd n p) of
        (Some status, p2) \<Rightarrow> (status, p2\<lparr>key_prefix := key_prefix p\<rparr>)
      | (None, p2) \<Rightarrow>
          (let r = (if type_fd fd = TYPE_MESSAGE
                    then ParseMessage pool ov (as_bytes f) (resolved_type_name fd) None p2
                    else ParseSimpleField pool fd f p2)
           in (fst r, (snd r)\<lparr>key_prefix := key_prefix p\<rparr>)))"
      by (simp add: ParseField.simps Let_def scoped_prefix_def split: prod.split option.split)
    show "snd (ParseField pool ov fd n f p) = snd (case MaybeApplyOverride ov f (scoped_prefix fd n p) of
        (Some status, p2) \<Rightarrow> (status, p2\<lparr>key_prefix := key_prefix p\<rparr>)
      | (None, p2) \<Rightarrow>
          (let r = (if type_fd fd = TYPE_MESSAGE
                    then ParseMessage pool ov (as_bytes f) (resolved_type_name fd) None p2
                    else ParseSimpleField pool fd f p2)
           in (fst r, (snd r)\<lparr>key_prefix := key_prefix p\<rparr>)))"
      apply (rule parser_eq)
      subgoal using kp by (simp add: Let_def split: prod.split option.split)
      subgoal by (simp add: ParseField.simps Let_def scoped_prefix_def split: prod.split option.split)
      done
  qed
qed

subsection \<open>The loop of ParseMessage\<close>

lemma loop_append:
  "ParseMessage_loop pool ov d a (xs @ ys) idx p =
     (case ParseMessage_loop pool ov d a xs idx p of
        (OkStatus, idx1, p1) \<Rightarrow> ParseMessage_loop pool ov d a ys idx1 p1
      | (ErrStatus e, idx1, p1) \<Rightarrow> (ErrStatus e, idx1, p1))"
  by (induction xs arbitrary: idx p) (simp_all split: option.split prod.split Status.split)

lemma loop_unknown:
  "FindFieldByTag d (id_field f) = None \<Longrightarrow>
   ParseMessage_loop pool ov d a (pre @ f # rest) idx p = ParseMessage_loop pool ov d a (pre @ rest) idx p"
  by (simp add: loop_append split: prod.split Status.split)

lemma is_allowed_None: "is_allowed fd None t"
  by (simp add: is_allowed_def)

lemma loop_filter:
  "ParseMessage_loop pool ov d a xs idx p =
   ParseMessage_loop pool ov d None
     (filter (\<lambda>f. case FindFieldByTag d (id_field f) of None \<Rightarrow> False
                   | Some fd \<Rightarrow> is_allowed fd a (id_field f)) xs) idx p"
  by (induction xs arbitrary: idx p)
    (simp_all add: is_allowed_None split: option.split prod.split Status.split)

lemma loop_counter_repeated:
  "ParseMessage_loop pool ov d a xs idx p = (OkStatus, idx1, p1) \<Longrightarrow>
   FindFieldByTag d t = Some fd \<Longrightarrow> is_repeated fd \<Longrightarrow> is_allowed fd a t \<Longrightarrow>
   idx1 t = idx t + int (length (filter (\<lambda>g. id_field g = t) xs))"
proof (induction xs arbitrary: idx p)
  case Nil
  then show ?case by simp
next
  case (Cons x xs)
  show ?case
  proof (cases "FindFieldByTag d (id_field x)")
    case None
    with Cons.prems have "id_field x \<noteq> t" by auto
    with Cons None show ?thesis by simp
  next
    case (Some fx)
    show ?thesis
    proof (cases "is_allowed fx a (id_field x)")
      case False
      with Cons.prems Some have "id_field x \<noteq> t" by auto
      with Cons Some False show ?thesis by simp
    next
      case True
      obtain st p' where pf: "ParseField pool ov fx (idx (id_field x)) x p = (st, p')"
        by (cases "ParseField pool ov fx (idx (id_field x)) x p")
      with Cons.prems(1) Some True have st: "st = OkStatus"
        by (cases st) simp_all
      with Cons.prems(1) Some True pf
      have loop: "ParseMessage_loop pool ov d a xs
          (if is_repeated fx then idx(id_field x := idx (id_field x) + 1) else idx) p' = (OkStatus, idx1, p1)"
        by simp
      from Cons.IH[OF loop Cons.prems(2,3,4)] Some Cons.prems(2,3)
      show ?thesis by (auto)
    qed
  qed
qed

lemma loop_counter_unchanged:
  "(case FindFieldByTag d t of None \<Rightarrow> True | Some fd \<Rightarrow> \<not> is_repeated fd) \<Longrightarrow>
   fst (snd (ParseMessage_loop pool ov d a xs idx p)) t = idx t"
  by (induction xs arbitrary: idx p)
     (auto split: option.split prod.split Status.split)

subsection \<open>Fields that make one Delegate call\<close>

lemma ParseSimpleField_Ok:
  "ParseSimpleField pool fd f p = (OkStatus, p') \<Longrightarrow>
   \<exists>c. p' = call c p \<and> call_key c = key_prefix p"
  unfolding ParseSimpleField_def Let_def
  by (auto split: if_splits option.splits)

lemma MaybeApplyOverride_None:
  "ov (flat_key (key_prefix q)) = None \<Longrightarrow> MaybeApplyOverride ov f q = (None, q)"
  by (simp add: MaybeApplyOverride_def)

lemma ParseField_simple_call:
  assumes "ov (flat_key (key_prefix (scoped_prefix fd n p))) = None"
    and "type_fd fd \<noteq> TYPE_MESSAGE"
    and "ParseField pool ov fd n f p = (OkStatus, p')"
  shows "\<exists>c. delegate p' = delegate p @ [c] \<and> call_key c = key_prefix (scoped_prefix fd n p)"
proof -
  obtain st q where sf: "ParseSimpleField pool fd f (scoped_prefix fd n p) = (st, q)"
    by (cases "ParseSimpleField pool fd f (scoped_prefix fd n p)")
  from assms sf have st: "st = OkStatus" and p': "p' = q\<lparr>key_prefix := key_prefix p\<rparr>"
    by (simp_all add: ParseField_scoped MaybeApplyOverride_None)
  from ParseSimpleField_Ok sf st obtain c where
    c: "q = call c (scoped_prefix fd n p)" "call_key c = key_prefix (scoped_prefix fd n p)"
    by blast
  have "delegate p' = delegate p @ [c]"
    by (simp add: p' c(1) call_def scoped_prefix_def)
  with c(2) show ?thesis by blast
qed

lemma ParseMessage_Ok_loop:
  "pool type = Some d \<Longrightarrow> ParseMessage pool ov cb type allowed p = (OkStatus, p1) \<Longrightarrow>
   \<exists>idx1. ParseMessage_loop pool ov d allowed cb (\<lambda>_. 0) p = (OkStatus, idx1, p1)"
  by (cases "ParseMessage_loop pool ov d allowed cb (\<lambda>_. 0) p") (simp add: ParseMessage.simps)

lemma ParseMessage_snoc:
  assumes "pool type = Some d"
    and "ParseMessage_loop pool ov d allowed pre (\<lambda>_. 0) p = (OkStatus, idx1, p1)"
    and "FindFieldByTag d (id_field f) = Some fd"
    and "is_allowed fd allowed (id_field f)"
  shows "ParseMessage pool ov (pre @ [f]) type allowed p =
         ParseField pool ov fd (idx1 (id_field f)) f p1"
proof -
  obtain st q where pf: "ParseField pool ov fd (idx1 (id_field f)) f p1 = (st, q)"
    by (cases "ParseField pool ov fd (idx1 (id_field f)) f p1")
  show ?thesis
    using assms pf by (cases st) (simp_all add: ParseMessage.simps loop_append)
qed

lemma ParseMessage_snoc_Ok:
  assumes "pool type = Some d"
    and "ParseMessage pool ov (pre @ [f]) type allowed p = (OkStatus, p')"
  shows "\<exists>p1. ParseMessage pool ov pre type allowed p = (OkStatus, p1)"
proof -
  obtain st idx1 p1 where l: "ParseMessage_loop pool ov d allowed pre (\<lambda>_. 0) p = (st, idx1, p1)"
    by (cases "ParseMessage_loop pool ov d allowed pre (\<lambda>_. 0) p")
  with assms have "st = OkStatus"
    by (cases st) (simp_all add: ParseMessage.simps loop_append)
  with assms(1) l show ?thesis by (simp add: ParseMessage.simps)
qed

lemma same_tag_keys:
  assumes "pool type = Some d" and "FindFieldByTag d t = Some fd" and "is_allowed fd allowed t"
    and "ov (ScopedStringAppender (name fd) (flat_key (key_prefix p))) = None"
    and "type_fd fd \<noteq> TYPE_MESSAGE"
  shows "\<forall>g \<in> set cb. id_field g = t \<Longrightarrow>
     ParseMessage pool ov cb type allowed p = (OkStatus, p') \<Longrightarrow>
     \<exists>cs. delegate p' = delegate p @ cs \<and>
       map call_key cs =
       map (\<lambda>i. key_prefix (scoped_prefix fd (if is_repeated fd then int i else 0) p))
         [0..<length cb]"
proof (induction cb arbitrary: p' rule: rev_induct)
  case Nil
  with assms(1) show ?case by (simp add: ParseMessage.simps)
next
  case (snoc f pre)
  from snoc.prems have tags: "\<forall>g \<in> set pre. id_field g = t" and ft: "id_field f = t" by simp_all
  from ParseMessage_snoc_Ok [OF assms(1) snoc.prems(2)]
  obtain p1 where pre: "ParseMessage pool ov pre type allowed p = (OkStatus, p1)" by blast
  from snoc.IH [OF tags pre] obtain cs where
    cs: "delegate p1 = delegate p @ cs"
      "map call_key cs =
       map (\<lambda>i. key_prefix (scoped_prefix fd (if is_repeated fd then int i else 0) p))
         [0..<length pre]"
    by blast
  have kp: "key_prefix p1 = key_prefix p"
    using key_prefix_preserved(1) [of pool ov pre type allowed p] pre by simp
  from ParseMessage_Ok_loop [OF assms(1) pre] obtain idx1 where
    l: "ParseMessage_loop pool ov d allowed pre (\<lambda>_. 0) p = (OkStatus, idx1, p1)" by blast
  have idx: "is_repeated fd \<Longrightarrow> idx1 t = int (length pre)"
    using loop_counter_repeated [OF l assms(2) _ assms(3)] tags by simp
  from ParseMessage_snoc [OF assms(1) l, where f = f and fd = fd] assms(2,3) ft snoc.prems(2)
  have pf: "ParseField pool ov fd (idx1 t) f p1 = (OkStatus, p')" by simp
  have sp: "scoped_prefix fd (idx1 t) p1 =
            (scoped_prefix fd (if is_repeated fd then int (length pre) else 0) p)\<lparr>delegate := delegate p1\<rparr>"
    using idx kp by (simp add: scoped_prefix_def)
  have no: "ov (flat_key (key_prefix (scoped_prefix fd (idx1 t) p1))) = None"
    using assms(4) kp by (simp add: scoped_prefix_def)
  from ParseField_simple_call [OF no assms(5) pf] obtain c where
    c: "delegate p' = delegate p1 @ [c]" "call_key c = key_prefix (scoped_prefix fd (idx1 t) p1)"
    by blast
  have "delegate p' = delegate p @ (cs @ [c])" using c(1) cs(1) by simp
  moreover have "map call_key (cs @ [c]) =
       map (\<lambda>i. key_prefix (scoped_prefix fd (if is_repeated fd then int i else 0) p))
         [0..<length (pre @ [f])]"
    using cs(2) c(2) sp by simp
  ultimately show ?case by blast
qed

subsection \<open>Evaluating the examples\<close>

lemmas example_defs =
  MC_pool_def M_desc_def C_desc_def flag_fd_def x_fd_def y_fd_def child_fd_def M_bytes_def
  F_pool_def F_desc_def Color_desc_def
  blob_fd_def n_fd_def color_fd_def inner_fd_def unk_fd_def decline_def refuse_def fresh_def

lemmas eval_defs =
  ParseMessage.simps ParseField.simps ParseSimpleField_def MaybeApplyOverride_def
  ScopedStringAppender_def erase_def call_def to_string_def digit_def is_allowed_def
  AddParsingOverride_def scoped_prefix_def as_int32_def as_bool_def Let_def

text \<open>
  A nested message that fails partway: \<open>inner\<close> holds \<open>n = 7\<close>, which is emitted, and
  then a \<open>blob\<close>, whose type has no case. The failure comes back with the prefix empty
  again.
\<close>

lemma inner_fails_partway:
  "ParseField F_pool (\<lambda>_. None) inner_fd 0 (Field 4 0 [] [Field 2 7 [] [], Field 1 0 ''zz'' []]) fresh =
     (ErrStatus (UnsupportedFieldType ''blob'' '''' TYPE_BYTES),
      \<lparr>key_prefix = \<lparr>flat_key = [], key = []\<rparr>,
       delegate = [AddInteger \<lparr>flat_key = ''inner.n'', key = ''inner.n''\<rparr> 7]\<rparr>)"
  by (simp add: eval_defs example_defs)

section \<open>The claims\<close>

text \<open>
  C1. Every call of \<open>ParseField\<close> leaves both strings of \<open>key_prefix\<close> exactly as they
  were before the call, whatever status it returns (success, the status of an override,
  or a failure from a nested message). Hence a sibling field \<open>B\<close> processed after a field
  \<open>A\<close> is processed exactly as from the prefix that stood before \<open>A\<close>: the only trace of
  \<open>A\<close> is in what the Delegate has received. In particular the call that a successful
  \<open>B\<close> with no override and a type other than message makes carries the prefix that
  stood before \<open>A\<close> with the segment of \<open>B\<close> appended, and nothing of \<open>A\<close>.
\<close>

theorem ParseField_restores_key_prefix:
  "key_prefix (snd (ParseField pool ov fdA nA fA p)) = key_prefix p \<and>
   ParseField pool ov fdB nB fB (snd (ParseField pool ov fdA nA fA p)) =
   ParseField pool ov fdB nB fB (p\<lparr>delegate := delegate (snd (ParseField pool ov fdA nA fA p))\<rparr>) \<and>
   (ov (ScopedStringAppender (name fdB) (flat_key (key_prefix p))) = None \<and>
    type_fd fdB \<noteq> TYPE_MESSAGE \<and>
    ParseField pool ov fdB nB fB (snd (ParseField pool ov fdA nA fA p)) = (OkStatus, p') \<longrightarrow>
      (\<exists>c. delegate p' = delegate (snd (ParseField pool ov fdA nA fA p)) @ [c] \<and>
           call_key c = key_prefix (scoped_prefix fdB nB p)))"
proof -
  let ?pA = "snd (ParseField pool ov fdA nA fA p)"
  have kp: "key_prefix ?pA = key_prefix p"
    by (rule key_prefix_preserved(3))
  have "?pA = p\<lparr>delegate := delegate ?pA\<rparr>"
    by (rule parser_eq) (simp_all add: kp)
  then have sib: "ParseField pool ov fdB nB fB ?pA =
      ParseField pool ov fdB nB fB (p\<lparr>delegate := delegate ?pA\<rparr>)"
    by simp
  have keys: "\<exists>c. delegate p' = delegate ?pA @ [c] \<and>
           call_key c = key_prefix (scoped_prefix fdB nB p)"
    if a: "ov (ScopedStringAppender (name fdB) (flat_key (key_prefix p))) = None \<and>
      type_fd fdB \<noteq> TYPE_MESSAGE \<and> ParseField pool ov fdB nB fB ?pA = (OkStatus, p')"
  proof -
    have sp: "key_prefix (scoped_prefix fdB nB ?pA) = key_prefix (scoped_prefix fdB nB p)"
      using kp by (simp add: scoped_prefix_def)
    from a have no: "ov (flat_key (key_prefix (scoped_prefix fdB nB ?pA))) = None"
      by (simp add: sp) (simp add: scoped_prefix_def)
    from ParseField_simple_call [where ov = ov and fd = fdB and n = nB and p = ?pA, OF no] a
    obtain c where "delegate p' = delegate ?pA @ [c]"
      "call_key c = key_prefix (scoped_prefix fdB nB ?pA)"
      by blast
    with sp show ?thesis by auto
  qed
  from kp sib keys show ?thesis by blast
qed

text \<open>
  At the nested failure above, followed by the sibling \<open>n = 9\<close>: the sibling's key is
  \<open>n\<close>, with nothing left of \<open>inner\<close>.
\<close>

theorem ParseField_restores_key_prefix_witness:
  "key_prefix (snd (ParseField F_pool (\<lambda>_. None) inner_fd 0
       (Field 4 0 [] [Field 2 7 [] [], Field 1 0 ''zz'' []]) fresh)) = key_prefix fresh \<and>
   ParseField F_pool (\<lambda>_. None) n_fd 0 (Field 2 9 [] [])
     (snd (ParseField F_pool (\<lambda>_. None) inner_fd 0
       (Field 4 0 [] [Field 2 7 [] [], Field 1 0 ''zz'' []]) fresh)) =
     (OkStatus,
      \<lparr>key_prefix = \<lparr>flat_key = [], key = []\<rparr>,
       delegate = [AddInteger \<lparr>flat_key = ''inner.n'', key = ''inner.n''\<rparr> 7,
                   AddInteger \<lparr>flat_key = ''n'', key = ''n''\<rparr> 9]\<rparr>)"
  using ParseField_restores_key_prefix [where pool = F_pool and ov = "\<lambda>_. None"
      and fdA = inner_fd and nA = 0 and fA = "Field 4 0 [] [Field 2 7 [] [], Field 1 0 ''zz'' []]"
      and p = fresh and fdB = n_fd and nB = 0 and fB = "Field 2 9 [] []"]
  by (simp add: inner_fails_partway) (simp add: eval_defs example_defs)

text \<open>
  C2. Decoding the bytes of \<open>x = 5\<close>, \<open>y = ["p", "q"]\<close>, \<open>child.flag = true\<close> as type
  \<open>M\<close>, with no allowlist and no override, on a parser that has entered no field,
  returns success, and the Delegate receives exactly the four calls below, in this
  order.
\<close>

theorem end_to_end:
  "ParseMessage MC_pool (\<lambda>_. None) M_bytes ''M'' None fresh =
     (OkStatus,
      \<lparr>key_prefix = \<lparr>flat_key = [], key = []\<rparr>,
       delegate =
         [AddInteger \<lparr>flat_key = ''x'', key = ''x''\<rparr> 5,
          AddString \<lparr>flat_key = ''y'', key = ''y[0]''\<rparr> ''p'',
          AddString \<lparr>flat_key = ''y'', key = ''y[1]''\<rparr> ''q'',
          AddBoolean \<lparr>flat_key = ''child.flag'', key = ''child.flag''\<rparr> True]\<rparr>)"
  by (simp add: eval_defs example_defs)

text \<open>
  C6. For a field of declared type enum, \<open>ParseSimpleField\<close> always returns success and
  makes exactly one Delegate call: \<open>AddInteger\<close> with the raw value when the pool does not
  have the enum's type or the type has no name for the value, and \<open>AddString\<close> with the
  name otherwise.
\<close>

theorem enum_never_fails:
  "type_fd fd = TYPE_ENUM \<Longrightarrow>
   ParseSimpleField pool fd f p =
     (OkStatus,
      call (case pool (resolved_type_name fd) of
              None \<Rightarrow> AddInteger (key_prefix p) (as_int32 f)
            | Some enum_descriptor \<Rightarrow>
                (case FindEnumString enum_descriptor (as_int32 f) of
                   None \<Rightarrow> AddInteger (key_prefix p) (as_int32 f)
                 | Some enum_string \<Rightarrow> AddString (key_prefix p) enum_string)) p)"
  by (simp add: ParseSimpleField_def Let_def split: option.split)

text \<open>
  The three cases: an enum type the pool does not have, a value \<open>Color\<close> has no name for,
  and the value 1, which \<open>Color\<close> names \<open>RED\<close>.
\<close>

theorem enum_never_fails_witness:
  "ParseSimpleField F_pool unk_fd (Field 5 1 [] []) fresh =
     (OkStatus, fresh\<lparr>delegate := [AddInteger \<lparr>flat_key = [], key = []\<rparr> 1]\<rparr>) \<and>
   ParseSimpleField F_pool color_fd (Field 3 2 [] []) fresh =
     (OkStatus, fresh\<lparr>delegate := [AddInteger \<lparr>flat_key = [], key = []\<rparr> 2]\<rparr>) \<and>
   ParseSimpleField F_pool color_fd (Field 3 1 [] []) fresh =
     (OkStatus, fresh\<lparr>delegate := [AddString \<lparr>flat_key = [], key = []\<rparr> ''RED'']\<rparr>)"
proof -
  have t1: "type_fd unk_fd = TYPE_ENUM" and t2: "type_fd color_fd = TYPE_ENUM"
    by (simp_all add: unk_fd_def color_fd_def)
  show ?thesis
    using enum_never_fails [OF t1, of F_pool "Field 5 1 [] []" fresh]
      enum_never_fails [OF t2, of F_pool "Field 3 2 [] []" fresh]
      enum_never_fails [OF t2, of F_pool "Field 3 1 [] []" fresh]
    by (simp add: eval_defs example_defs)
qed

text \<open>
  C8, as the claim states it, fails for the declared type bytes: \<open>ParseSimpleField\<close> has
  a case for \<open>TYPE_STRING\<close> only, so a bytes field reaches the default branch. Here a
  bytes field \<open>blob\<close> makes no Delegate call and returns the failure.
\<close>

theorem bytes_field_fails:
  "ParseSimpleField F_pool blob_fd (Field 1 0 ''zz'' []) fresh =
     (ErrStatus (UnsupportedFieldType ''blob'' '''' TYPE_BYTES), fresh)"
  by (simp add: eval_defs example_defs)

text \<open>
  C8, amended. For a field of declared type string, \<open>ParseSimpleField\<close> hands the
  field's characters to \<open>AddString\<close> and returns success. For a field of declared type
  bytes it makes no Delegate call and returns the failure of an unsupported type.
\<close>

theorem string_field_AddString:
  "(type_fd fd = TYPE_STRING \<longrightarrow>
      ParseSimpleField pool fd f p = (OkStatus, call (AddString (key_prefix p) (as_string f)) p)) \<and>
   (type_fd fd = TYPE_BYTES \<longrightarrow>
      ParseSimpleField pool fd f p =
        (ErrStatus (UnsupportedFieldType (name fd) (resolved_type_name fd) TYPE_BYTES), p))"
  by (simp add: ParseSimpleField_def Let_def)

theorem string_field_AddString_witness:
  "ParseSimpleField MC_pool y_fd (Field 2 0 ''p'' []) fresh =
     (OkStatus, fresh\<lparr>delegate := [AddString \<lparr>flat_key = [], key = []\<rparr> ''p'']\<rparr>) \<and>
   ParseSimpleField F_pool blob_fd (Field 1 0 ''zz'' []) fresh =
     (ErrStatus (UnsupportedFieldType ''blob'' '''' TYPE_BYTES), fresh)"
  using string_field_AddString [of y_fd MC_pool "Field 2 0 ''p'' []" fresh]
    string_field_AddString [of blob_fd F_pool "Field 1 0 ''zz'' []" fresh]
  by (simp add: eval_defs example_defs)

text \<open>
  C9. A wire field whose tag the message's descriptor does not know changes nothing:
  the parse of a message with such a field anywhere in it returns the same status, and
  leaves the Delegate with the same calls, as the parse of the message without it.
\<close>

theorem unknown_field_skipped:
  "pool type = Some d \<Longrightarrow> FindFieldByTag d (id_field f) = None \<Longrightarrow>
   ParseMessage pool ov (pre @ f # rest) type allowed p =
   ParseMessage pool ov (pre @ rest) type allowed p"
  by (simp add: ParseMessage.simps loop_unknown)

text \<open>A field of tag 9, which \<open>M\<close> does not have, between \<open>x = 5\<close> and \<open>y = "p"\<close>.\<close>

theorem unknown_field_skipped_witness:
  "ParseMessage MC_pool (\<lambda>_. None)
     ([Field 1 5 [] []] @ Field 9 0 ''junk'' [Field 1 1 [] []] # [Field 2 0 ''p'' []]) ''M'' None fresh =
     (OkStatus,
      \<lparr>key_prefix = \<lparr>flat_key = [], key = []\<rparr>,
       delegate =
         [AddInteger \<lparr>flat_key = ''x'', key = ''x''\<rparr> 5,
          AddString \<lparr>flat_key = ''y'', key = ''y[0]''\<rparr> ''p'']\<rparr>)"
proof -
  have h1: "MC_pool ''M'' = Some M_desc" by (simp add: MC_pool_def)
  have h2: "FindFieldByTag M_desc (id_field (Field 9 0 ''junk'' [Field 1 1 [] []])) = None"
    by (simp add: M_desc_def)
  show ?thesis
    using unknown_field_skipped [where pool = MC_pool and type = "''M''" and d = M_desc
        and f = "Field 9 0 ''junk'' [Field 1 1 [] []]" and ov = "\<lambda>_. None"
        and pre = "[Field 1 5 [] []]" and rest = "[Field 2 0 ''p'' []]" and allowed = None
        and p = fresh, OF h1 h2]
    by (simp add: eval_defs example_defs)
qed

text \<open>
  C3. With the descriptor of the message at hand, \<open>ParseMessage\<close> under an allowlist
  does exactly what \<open>ParseMessage\<close> without one does on the wire fields that have a
  descriptor and are an extension, or have their tag in the allowlist (no allowlist keeps
  them all): every other field with a descriptor is skipped with no Delegate call and no
  failure. Step by step, a field with a descriptor goes to \<open>ParseField\<close> if and only if
  it is an extension, or there is no allowlist, or its tag is in the allowlist. And the
  \<open>ParseMessage\<close> that \<open>ParseField\<close> makes for a message field is made with no allowlist.
\<close>

theorem allowlist_top_level_only:
  "(pool type = Some d \<longrightarrow>
      ParseMessage pool ov cb type allowed p =
      ParseMessage pool ov
        (filter (\<lambda>f. case FindFieldByTag d (id_field f) of
                        None \<Rightarrow> False
                      | Some fd \<Rightarrow> is_extension fd \<or> allowed = None \<or>
                                   id_field f \<in> set (the allowed)) cb)
        type None p) \<and>
   (FindFieldByTag d (id_field f) = Some fd \<longrightarrow>
      ParseMessage_loop pool ov d allowed (f # rest) idx p =
        (if is_extension fd \<or> allowed = None \<or> id_field f \<in> set (the allowed)
         then (case ParseField pool ov fd (idx (id_field f)) f p of
                 (ErrStatus e, p') \<Rightarrow> (ErrStatus e, idx, p')
               | (OkStatus, p') \<Rightarrow>
                   ParseMessage_loop pool ov d allowed rest
                     (if is_repeated fd then idx(id_field f := idx (id_field f) + 1) else idx) p')
         else ParseMessage_loop pool ov d allowed rest idx p)) \<and>
   (fst (MaybeApplyOverride ov f (scoped_prefix fd n p)) = None \<and> type_fd fd = TYPE_MESSAGE \<longrightarrow>
      ParseField pool ov fd n f p =
        (let r = ParseMessage pool ov (as_bytes f) (resolved_type_name fd) None
                   (snd (MaybeApplyOverride ov f (scoped_prefix fd n p)))
         in (fst r, (snd r)\<lparr>key_prefix := key_prefix p\<rparr>)))"
proof (intro conjI impI)
  assume "pool type = Some d"
  then show "ParseMessage pool ov cb type allowed p =
      ParseMessage pool ov
        (filter (\<lambda>f. case FindFieldByTag d (id_field f) of
                        None \<Rightarrow> False
                      | Some fd \<Rightarrow> is_extension fd \<or> allowed = None \<or>
                                   id_field f \<in> set (the allowed)) cb)
        type None p"
    using loop_filter [of pool ov d allowed cb "\<lambda>_. 0" p, unfolded is_allowed_def]
    by (simp add: ParseMessage.simps)
next
  assume "FindFieldByTag d (id_field f) = Some fd"
  then show "ParseMessage_loop pool ov d allowed (f # rest) idx p =
        (if is_extension fd \<or> allowed = None \<or> id_field f \<in> set (the allowed)
         then (case ParseField pool ov fd (idx (id_field f)) f p of
                 (ErrStatus e, p') \<Rightarrow> (ErrStatus e, idx, p')
               | (OkStatus, p') \<Rightarrow>
                   ParseMessage_loop pool ov d allowed rest
                     (if is_repeated fd then idx(id_field f := idx (id_field f) + 1) else idx) p')
         else ParseMessage_loop pool ov d allowed rest idx p)"
    by (simp add: is_allowed_def)
next
  assume "fst (MaybeApplyOverride ov f (scoped_prefix fd n p)) = None \<and> type_fd fd = TYPE_MESSAGE"
  then show "ParseField pool ov fd n f p =
        (let r = ParseMessage pool ov (as_bytes f) (resolved_type_name fd) None
                   (snd (MaybeApplyOverride ov f (scoped_prefix fd n p)))
         in (fst r, (snd r)\<lparr>key_prefix := key_prefix p\<rparr>))"
    by (cases "MaybeApplyOverride ov f (scoped_prefix fd n p)") (simp add: ParseField_scoped)
qed

text \<open>
  The allowlist \<open>{3}\<close> on the message of \<open>M\<close>: \<open>x\<close> and \<open>y\<close> are skipped, \<open>child\<close> is
  entered, and its \<open>flag\<close>, of tag 1, is emitted although 1 is not in the allowlist.
\<close>

theorem allowlist_top_level_only_witness:
  "ParseMessage MC_pool (\<lambda>_. None) M_bytes ''M'' (Some [3]) fresh =
   ParseMessage MC_pool (\<lambda>_. None) [Field 3 0 [] [Field 1 1 [] []]] ''M'' None fresh \<and>
   ParseMessage MC_pool (\<lambda>_. None) M_bytes ''M'' (Some [3]) fresh =
     (OkStatus,
      \<lparr>key_prefix = \<lparr>flat_key = [], key = []\<rparr>,
       delegate = [AddBoolean \<lparr>flat_key = ''child.flag'', key = ''child.flag''\<rparr> True]\<rparr>)"
proof -
  have h: "MC_pool ''M'' = Some M_desc" by (simp add: MC_pool_def)
  have flt: "filter (\<lambda>f. case FindFieldByTag M_desc (id_field f) of
                        None \<Rightarrow> False
                      | Some fd \<Rightarrow> is_extension fd \<or> Some [3::nat] = None \<or>
                                   id_field f \<in> set (the (Some [3]))) M_bytes
             = [Field 3 0 [] [Field 1 1 [] []]]"
    by (simp add: M_bytes_def M_desc_def x_fd_def y_fd_def child_fd_def)
  have ev: "ParseMessage MC_pool (\<lambda>_. None) [Field 3 0 [] [Field 1 1 [] []]] ''M'' None fresh =
     (OkStatus,
      \<lparr>key_prefix = \<lparr>flat_key = [], key = []\<rparr>,
       delegate = [AddBoolean \<lparr>flat_key = ''child.flag'', key = ''child.flag''\<rparr> True]\<rparr>)"
    by (simp add: eval_defs example_defs)
  from allowlist_top_level_only [where pool = MC_pool and type = "''M''" and d = M_desc
      and ov = "\<lambda>_. None" and cb = M_bytes and allowed = "Some [3]" and p = fresh]
  have "ParseMessage MC_pool (\<lambda>_. None) M_bytes ''M'' (Some [3]) fresh =
        ParseMessage MC_pool (\<lambda>_. None) [Field 3 0 [] [Field 1 1 [] []]] ''M'' None fresh"
    using h flt by simp
  with ev show ?thesis by simp
qed

text \<open>
  C7. When \<open>ParseField\<close> returns a failure for a wire field, the loop of
  \<open>ParseMessage\<close> returns that failure at once, with the Delegate as \<open>ParseField\<close> left
  it. Hence when the message up to and including a field fails, the message with any
  further fields after it returns the same failure and the Delegate has received the same
  calls: no later field is processed.
\<close>

theorem fail_fast:
  "(FindFieldByTag d (id_field f) = Some fd \<and> is_allowed fd allowed (id_field f) \<and>
    ParseField pool ov fd (idx (id_field f)) f p = (ErrStatus e, p') \<longrightarrow>
      ParseMessage_loop pool ov d allowed (f # rest) idx p = (ErrStatus e, idx, p')) \<and>
   (ParseMessage pool ov (pre @ [f]) type allowed p = (ErrStatus e, p') \<longrightarrow>
      ParseMessage pool ov (pre @ f # rest) type allowed p = (ErrStatus e, p'))"
proof (intro conjI impI)
  assume "FindFieldByTag d (id_field f) = Some fd \<and> is_allowed fd allowed (id_field f) \<and>
    ParseField pool ov fd (idx (id_field f)) f p = (ErrStatus e, p')"
  then show "ParseMessage_loop pool ov d allowed (f # rest) idx p = (ErrStatus e, idx, p')"
    by simp
next
  assume a: "ParseMessage pool ov (pre @ [f]) type allowed p = (ErrStatus e, p')"
  show "ParseMessage pool ov (pre @ f # rest) type allowed p = (ErrStatus e, p')"
  proof (cases "pool type")
    case None
    with a show ?thesis by (simp add: ParseMessage.simps)
  next
    case (Some d)
    obtain st idx1 p1 where l: "ParseMessage_loop pool ov d allowed (pre @ [f]) (\<lambda>_. 0) p = (st, idx1, p1)"
      by (cases "ParseMessage_loop pool ov d allowed (pre @ [f]) (\<lambda>_. 0) p")
    with a Some have st: "st = ErrStatus e" "p1 = p'" by (simp_all add: ParseMessage.simps)
    have "ParseMessage_loop pool ov d allowed ((pre @ [f]) @ rest) (\<lambda>_. 0) p = (ErrStatus e, idx1, p')"
      unfolding loop_append [of pool ov d allowed "pre @ [f]" rest] using l st by simp
    with Some show ?thesis by (simp add: ParseMessage.simps)
  qed
qed

text \<open>
  The message of \<open>F\<close> with tag 1 (a bytes field, which fails) and then tag 2 (\<open>n = 7\<close>):
  the failure of tag 1 is returned and the Delegate has received nothing.
\<close>

theorem fail_fast_witness:
  "ParseMessage F_pool (\<lambda>_. None) ([] @ Field 1 0 ''zz'' [] # [Field 2 7 [] []]) ''F'' None fresh =
     (ErrStatus (UnsupportedFieldType ''blob'' '''' TYPE_BYTES), fresh)"
proof -
  have a: "ParseMessage F_pool (\<lambda>_. None) ([] @ [Field 1 0 ''zz'' []]) ''F'' None fresh =
     (ErrStatus (UnsupportedFieldType ''blob'' '''' TYPE_BYTES), fresh)"
    by (simp add: eval_defs example_defs)
  from fail_fast [where pool = F_pool and ov = "\<lambda>_. None" and pre = "[]"
      and f = "Field 1 0 ''zz'' []" and type = "''F''" and allowed = None and p = fresh
      and e = "UnsupportedFieldType ''blob'' '''' TYPE_BYTES" and p' = fresh
      and rest = "[Field 2 7 [] []]"] a
  show ?thesis by blast
qed

text \<open>
  C4, as the claim states it, fails for a handler that returns no status: the handler
  \<open>decline\<close> is registered at the path \<open>child\<close>, which is the flat key of the message
  field \<open>child\<close>; it is invoked, makes no call and returns \<open>nullopt\<close>; \<open>ParseField\<close> then
  goes on to the default processing and parses the contents of \<open>child\<close>, so the Delegate
  receives \<open>child.flag\<close>.
\<close>

theorem override_declines:
  "AddParsingOverride ''child'' decline (\<lambda>_. None)
     (flat_key (key_prefix (scoped_prefix child_fd 0 fresh))) = Some decline \<and>
   decline (Field 3 0 [] [Field 1 1 [] []]) = (None, []) \<and>
   ParseField MC_pool (AddParsingOverride ''child'' decline (\<lambda>_. None)) child_fd 0
     (Field 3 0 [] [Field 1 1 [] []]) fresh =
     (OkStatus,
      \<lparr>key_prefix = \<lparr>flat_key = [], key = []\<rparr>,
       delegate = [AddBoolean \<lparr>flat_key = ''child.flag'', key = ''child.flag''\<rparr> True]\<rparr>)"
  by (simp add: eval_defs example_defs)

text \<open>
  C4, amended. When a handler is registered at a path equal to the current flat key and
  returns a status, \<open>ParseField\<close> returns that status as it is, and the Delegate has
  received the handler's calls and nothing else: no default processing takes place, and
  for a message field no contents are parsed. When the handler returns no status, the
  default processing of the field follows the handler's calls: \<open>ParseMessage\<close> for a
  message field, \<open>ParseSimpleField\<close> otherwise.
\<close>

theorem override_with_status_owns_field:
  "ov (flat_key (key_prefix (scoped_prefix fd n p))) = Some h \<Longrightarrow>
   (h f = (Some st, calls) \<longrightarrow>
      ParseField pool ov fd n f p = (st, p\<lparr>delegate := delegate p @ calls\<rparr>)) \<and>
   (h f = (None, calls) \<longrightarrow>
      ParseField pool ov fd n f p =
        (let q = (scoped_prefix fd n p)\<lparr>delegate := delegate p @ calls\<rparr>;
             r = (if type_fd fd = TYPE_MESSAGE
                  then ParseMessage pool ov (as_bytes f) (resolved_type_name fd) None q
                  else ParseSimpleField pool fd f q)
         in (fst r, (snd r)\<lparr>key_prefix := key_prefix p\<rparr>)))"
proof (intro conjI impI)
  assume reg: "ov (flat_key (key_prefix (scoped_prefix fd n p))) = Some h"
  have dl: "delegate (scoped_prefix fd n p) = delegate p"
    by (simp add: scoped_prefix_def)
  {
    assume h: "h f = (Some st, calls)"
    have "MaybeApplyOverride ov f (scoped_prefix fd n p) =
          (Some st, (scoped_prefix fd n p)\<lparr>delegate := delegate p @ calls\<rparr>)"
      using reg h dl by (simp add: MaybeApplyOverride_def)
    then show "ParseField pool ov fd n f p = (st, p\<lparr>delegate := delegate p @ calls\<rparr>)"
      by (simp add: ParseField_scoped scoped_prefix_def)
  }
  {
    assume h: "h f = (None, calls)"
    have "MaybeApplyOverride ov f (scoped_prefix fd n p) =
          (None, (scoped_prefix fd n p)\<lparr>delegate := delegate p @ calls\<rparr>)"
      using reg h dl by (simp add: MaybeApplyOverride_def)
    then show "ParseField pool ov fd n f p =
        (let q = (scoped_prefix fd n p)\<lparr>delegate := delegate p @ calls\<rparr>;
             r = (if type_fd fd = TYPE_MESSAGE
                  then ParseMessage pool ov (as_bytes f) (resolved_type_name fd) None q
                  else ParseSimpleField pool fd f q)
         in (fst r, (snd r)\<lparr>key_prefix := key_prefix p\<rparr>))"
      by (simp add: ParseField_scoped Let_def)
  }
qed

text \<open>
  The handler \<open>refuse\<close> at the path \<open>child\<close>: its failure is returned, the Delegate has
  its one call, and the \<open>flag\<close> inside \<open>child\<close> is not emitted.
\<close>

theorem override_with_status_owns_field_witness:
  "ParseField MC_pool (AddParsingOverride ''child'' refuse (\<lambda>_. None)) child_fd 0
     (Field 3 0 ''raw'' [Field 1 1 [] []]) fresh =
     (ErrStatus (HandlerError ''refused''),
      \<lparr>key_prefix = \<lparr>flat_key = [], key = []\<rparr>,
       delegate = [AddString \<lparr>flat_key = ''custom'', key = ''custom''\<rparr> ''raw'']\<rparr>)"
proof -
  have reg: "AddParsingOverride ''child'' refuse (\<lambda>_. None)
     (flat_key (key_prefix (scoped_prefix child_fd 0 fresh))) = Some refuse"
    by (simp add: eval_defs example_defs)
  have h: "refuse (Field 3 0 ''raw'' [Field 1 1 [] []]) =
     (Some (ErrStatus (HandlerError ''refused'')),
      [AddString \<lparr>flat_key = ''custom'', key = ''custom''\<rparr> ''raw''])"
    by (simp add: refuse_def)
  from override_with_status_owns_field [where ov = "AddParsingOverride ''child'' refuse (\<lambda>_. None)"
      and fd = child_fd and n = 0 and p = fresh and h = refuse
      and f = "Field 3 0 ''raw'' [Field 1 1 [] []]"
      and st = "ErrStatus (HandlerError ''refused'')"
      and calls = "[AddString \<lparr>flat_key = ''custom'', key = ''custom''\<rparr> ''raw'']"
      and pool = MC_pool, OF reg] h
  show ?thesis by (simp add: fresh_def)
qed

text \<open>
  C5. For a repeated field that is allowed, an occurrence that follows a successfully
  parsed part of the message is handed to \<open>ParseField\<close> with the number of earlier
  occurrences of its tag in this message, counted from 0 in every \<open>ParseMessage\<close> call.
  A successful repeated field with no override and a type other than message makes one
  Delegate call, with \<open>name[n]\<close> appended to \<open>key\<close> and the bare name to \<open>flat_key\<close>.
  So a message of \<open>N\<close> occurrences of such a field, parsed successfully, makes calls with
  the keys \<open>name[0]\<close>, ..., \<open>name[N-1]\<close> in wire order, all with the flat key \<open>name\<close>.
\<close>

theorem repeated_field_index:
  "(pool type = Some d \<and> FindFieldByTag d (id_field f) = Some fd \<and> is_repeated fd \<and>
    is_allowed fd allowed (id_field f) \<and>
    ParseMessage pool ov pre type allowed p = (OkStatus, q) \<longrightarrow>
      ParseMessage pool ov (pre @ [f]) type allowed p =
      ParseField pool ov fd (int (length (filter (\<lambda>g. id_field g = id_field f) pre))) f q) \<and>
   (is_repeated fd \<and> ov (ScopedStringAppender (name fd) (flat_key (key_prefix p))) = None \<and>
    type_fd fd \<noteq> TYPE_MESSAGE \<and> ParseField pool ov fd n f p = (OkStatus, p') \<longrightarrow>
      (\<exists>c. delegate p' = delegate p @ [c] \<and>
           call_key c =
             \<lparr>flat_key = ScopedStringAppender (name fd) (flat_key (key_prefix p)),
              key = ScopedStringAppender (name fd @ ''['' @ to_string n @ '']'')
                      (key (key_prefix p))\<rparr>)) \<and>
   (pool type = Some d \<and> FindFieldByTag d t = Some fd \<and> is_repeated fd \<and>
    is_allowed fd allowed t \<and> (\<forall>g \<in> set cb. id_field g = t) \<and>
    ov (ScopedStringAppender (name fd) (flat_key (key_prefix p))) = None \<and>
    type_fd fd \<noteq> TYPE_MESSAGE \<and> ParseMessage pool ov cb type allowed p = (OkStatus, p') \<longrightarrow>
      (\<exists>cs. delegate p' = delegate p @ cs \<and>
            map call_key cs =
              map (\<lambda>i. \<lparr>flat_key = ScopedStringAppender (name fd) (flat_key (key_prefix p)),
                         key = ScopedStringAppender (name fd @ ''['' @ to_string (int i) @ '']'')
                                 (key (key_prefix p))\<rparr>)
                [0..<length cb]))"
proof (intro conjI impI)
  assume a: "pool type = Some d \<and> FindFieldByTag d (id_field f) = Some fd \<and> is_repeated fd \<and>
    is_allowed fd allowed (id_field f) \<and>
    ParseMessage pool ov pre type allowed p = (OkStatus, q)"
  then obtain idx1 where
    l: "ParseMessage_loop pool ov d allowed pre (\<lambda>_. 0) p = (OkStatus, idx1, q)"
    using ParseMessage_Ok_loop by blast
  from loop_counter_repeated [OF l] a
  have "idx1 (id_field f) = int (length (filter (\<lambda>g. id_field g = id_field f) pre))"
    by simp
  with ParseMessage_snoc [OF _ l, of type f fd] a
  show "ParseMessage pool ov (pre @ [f]) type allowed p =
      ParseField pool ov fd (int (length (filter (\<lambda>g. id_field g = id_field f) pre))) f q"
    by simp
next
  assume a: "is_repeated fd \<and> ov (ScopedStringAppender (name fd) (flat_key (key_prefix p))) = None \<and>
    type_fd fd \<noteq> TYPE_MESSAGE \<and> ParseField pool ov fd n f p = (OkStatus, p')"
  then have no: "ov (flat_key (key_prefix (scoped_prefix fd n p))) = None"
    by (simp add: scoped_prefix_def)
  from ParseField_simple_call [where ov = ov and fd = fd and n = n and p = p, OF no] a
  obtain c where
    "delegate p' = delegate p @ [c]" "call_key c = key_prefix (scoped_prefix fd n p)"
    by blast
  with a show "\<exists>c. delegate p' = delegate p @ [c] \<and>
           call_key c =
             \<lparr>flat_key = ScopedStringAppender (name fd) (flat_key (key_prefix p)),
              key = ScopedStringAppender (name fd @ ''['' @ to_string n @ '']'')
                      (key (key_prefix p))\<rparr>"
    by (simp add: scoped_prefix_def)
next
  assume a: "pool type = Some d \<and> FindFieldByTag d t = Some fd \<and> is_repeated fd \<and>
    is_allowed fd allowed t \<and> (\<forall>g \<in> set cb. id_field g = t) \<and>
    ov (ScopedStringAppender (name fd) (flat_key (key_prefix p))) = None \<and>
    type_fd fd \<noteq> TYPE_MESSAGE \<and> ParseMessage pool ov cb type allowed p = (OkStatus, p')"
  then have "\<exists>cs. delegate p' = delegate p @ cs \<and>
       map call_key cs =
       map (\<lambda>i. key_prefix (scoped_prefix fd (if is_repeated fd then int i else 0) p))
         [0..<length cb]"
    by (intro same_tag_keys [where pool = pool and type = type and d = d and t = t
          and allowed = allowed and ov = ov]) simp_all
  with a show "\<exists>cs. delegate p' = delegate p @ cs \<and>
            map call_key cs =
              map (\<lambda>i. \<lparr>flat_key = ScopedStringAppender (name fd) (flat_key (key_prefix p)),
                         key = ScopedStringAppender (name fd @ ''['' @ to_string (int i) @ '']'')
                                 (key (key_prefix p))\<rparr>)
                [0..<length cb]"
    by (simp add: scoped_prefix_def)
qed

text \<open>The two occurrences of \<open>y\<close> in a message of \<open>M\<close>.\<close>

theorem repeated_field_index_witness:
  "\<exists>cs. delegate (snd (ParseMessage MC_pool (\<lambda>_. None)
                         [Field 2 0 ''p'' [], Field 2 0 ''q'' []] ''M'' None fresh)) = cs \<and>
        map call_key cs =
          [\<lparr>flat_key = ''y'', key = ''y[0]''\<rparr>, \<lparr>flat_key = ''y'', key = ''y[1]''\<rparr>]"
proof -
  let ?cb = "[Field 2 0 ''p'' [], Field 2 0 ''q'' []]"
  have h1: "MC_pool ''M'' = Some M_desc" by (simp add: MC_pool_def)
  have h2: "FindFieldByTag M_desc 2 = Some y_fd" by (simp add: M_desc_def y_fd_def)
  have h3: "is_repeated y_fd" "is_allowed y_fd None 2" "type_fd y_fd \<noteq> TYPE_MESSAGE"
    "\<forall>g \<in> set ?cb. id_field g = 2"
    by (simp_all add: y_fd_def is_allowed_def)
  have h4: "(\<lambda>_. None) (ScopedStringAppender (name y_fd) (flat_key (key_prefix fresh))) = None"
    by simp
  obtain p' where ok: "ParseMessage MC_pool (\<lambda>_. None) ?cb ''M'' None fresh = (OkStatus, p')"
    by (simp add: eval_defs example_defs)
  from repeated_field_index [where pool = MC_pool and type = "''M''" and d = M_desc and t = 2
      and fd = y_fd and allowed = None and cb = ?cb and ov = "\<lambda>_. None" and p = fresh
      and p' = p'] h1 h2 h3 h4 ok
  obtain cs where "delegate p' = delegate fresh @ cs"
    "map call_key cs =
       map (\<lambda>i. \<lparr>flat_key = ScopedStringAppender (name y_fd) (flat_key (key_prefix fresh)),
                  key = ScopedStringAppender (name y_fd @ ''['' @ to_string (int i) @ '']'')
                          (key (key_prefix fresh))\<rparr>) [0..<length ?cb]"
    by blast
  then show ?thesis
    using ok by (simp add: fresh_def y_fd_def ScopedStringAppender_def to_string_def digit_def upt_rec)
qed

text \<open>
  C10. For a field that is not repeated, \<open>ParseField\<close> does not depend on the index it
  is given; an occurrence that follows a successfully parsed part of the message is
  processed, whatever came before it; a message of occurrences of such a field, with no
  override and a type other than message, parsed successfully, makes one call for each
  occurrence, all with the same key and flat key, ending in the bare name with no
  bracketed index; and the counter of the tag is, when the loop returns, what it was
  when the loop started.
\<close>

theorem non_repeated_occurrences:
  "(\<not> is_repeated fd \<longrightarrow> ParseField pool ov fd n f p = ParseField pool ov fd 0 f p) \<and>
   (pool type = Some d \<and> FindFieldByTag d (id_field f) = Some fd \<and> \<not> is_repeated fd \<and>
    is_allowed fd allowed (id_field f) \<and>
    ParseMessage pool ov pre type allowed p = (OkStatus, q) \<longrightarrow>
      ParseMessage pool ov (pre @ [f]) type allowed p = ParseField pool ov fd 0 f q) \<and>
   (pool type = Some d \<and> FindFieldByTag d t = Some fd \<and> \<not> is_repeated fd \<and>
    is_allowed fd allowed t \<and> (\<forall>g \<in> set cb. id_field g = t) \<and>
    ov (ScopedStringAppender (name fd) (flat_key (key_prefix p))) = None \<and>
    type_fd fd \<noteq> TYPE_MESSAGE \<and> ParseMessage pool ov cb type allowed p = (OkStatus, p') \<longrightarrow>
      (\<exists>cs. delegate p' = delegate p @ cs \<and>
            map call_key cs =
              replicate (length cb)
                \<lparr>flat_key = ScopedStringAppender (name fd) (flat_key (key_prefix p)),
                 key = ScopedStringAppender (name fd) (key (key_prefix p))\<rparr>)) \<and>
   (FindFieldByTag d t = Some fd \<and> \<not> is_repeated fd \<longrightarrow>
      fst (snd (ParseMessage_loop pool ov d allowed cb idx p)) t = idx t)"
proof (intro conjI impI)
  assume "\<not> is_repeated fd"
  then show "ParseField pool ov fd n f p = ParseField pool ov fd 0 f p"
    by (simp add: ParseField.simps)
next
  assume a: "pool type = Some d \<and> FindFieldByTag d (id_field f) = Some fd \<and> \<not> is_repeated fd \<and>
    is_allowed fd allowed (id_field f) \<and>
    ParseMessage pool ov pre type allowed p = (OkStatus, q)"
  then obtain idx1 where
    l: "ParseMessage_loop pool ov d allowed pre (\<lambda>_. 0) p = (OkStatus, idx1, q)"
    using ParseMessage_Ok_loop by blast
  from loop_counter_unchanged [of d "id_field f" pool ov allowed pre "\<lambda>_. 0" p] a l
  have "idx1 (id_field f) = 0" by simp
  with ParseMessage_snoc [OF _ l, of type f fd] a
  show "ParseMessage pool ov (pre @ [f]) type allowed p = ParseField pool ov fd 0 f q"
    by simp
next
  assume a: "pool type = Some d \<and> FindFieldByTag d t = Some fd \<and> \<not> is_repeated fd \<and>
    is_allowed fd allowed t \<and> (\<forall>g \<in> set cb. id_field g = t) \<and>
    ov (ScopedStringAppender (name fd) (flat_key (key_prefix p))) = None \<and>
    type_fd fd \<noteq> TYPE_MESSAGE \<and> ParseMessage pool ov cb type allowed p = (OkStatus, p')"
  then have "\<exists>cs. delegate p' = delegate p @ cs \<and>
       map call_key cs =
       map (\<lambda>i. key_prefix (scoped_prefix fd (if is_repeated fd then int i else 0) p))
         [0..<length cb]"
    by (intro same_tag_keys [where pool = pool and type = type and d = d and t = t
          and allowed = allowed and ov = ov]) simp_all
  with a show "\<exists>cs. delegate p' = delegate p @ cs \<and>
            map call_key cs =
              replicate (length cb)
                \<lparr>flat_key = ScopedStringAppender (name fd) (flat_key (key_prefix p)),
                 key = ScopedStringAppender (name fd) (key (key_prefix p))\<rparr>"
    by (simp add: scoped_prefix_def map_replicate_const)
next
  assume "FindFieldByTag d t = Some fd \<and> \<not> is_repeated fd"
  then show "fst (snd (ParseMessage_loop pool ov d allowed cb idx p)) t = idx t"
    by (intro loop_counter_unchanged) simp
qed

text \<open>Two occurrences of \<open>x\<close> in a message of \<open>M\<close>: both are emitted under the key \<open>x\<close>.\<close>

theorem non_repeated_occurrences_witness:
  "ParseMessage MC_pool (\<lambda>_. None) ([Field 1 5 [] []] @ [Field 1 6 [] []]) ''M'' None fresh =
     (OkStatus,
      \<lparr>key_prefix = \<lparr>flat_key = [], key = []\<rparr>,
       delegate =
         [AddInteger \<lparr>flat_key = ''x'', key = ''x''\<rparr> 5,
          AddInteger \<lparr>flat_key = ''x'', key = ''x''\<rparr> 6]\<rparr>) \<and>
   fst (snd (ParseMessage_loop MC_pool (\<lambda>_. None) M_desc None
               [Field 1 5 [] [], Field 1 6 [] []] (\<lambda>_. 0) fresh)) 1 = 0"
proof -
  have h1: "MC_pool ''M'' = Some M_desc" by (simp add: MC_pool_def)
  have h2: "FindFieldByTag M_desc (id_field (Field 1 6 [] [])) = Some x_fd"
    "FindFieldByTag M_desc 1 = Some x_fd"
    by (simp_all add: M_desc_def x_fd_def)
  have h3: "\<not> is_repeated x_fd" "is_allowed x_fd None (id_field (Field 1 6 [] []))"
    by (simp_all add: x_fd_def is_allowed_def)
  have pre: "ParseMessage MC_pool (\<lambda>_. None) [Field 1 5 [] []] ''M'' None fresh =
     (OkStatus, \<lparr>key_prefix = \<lparr>flat_key = [], key = []\<rparr>,
                 delegate = [AddInteger \<lparr>flat_key = ''x'', key = ''x''\<rparr> 5]\<rparr>)"
    by (simp add: eval_defs example_defs)
  note inst = non_repeated_occurrences [where pool = MC_pool and type = "''M''" and d = M_desc
      and f = "Field 1 6 [] []" and fd = x_fd and allowed = None and ov = "\<lambda>_. None"
      and pre = "[Field 1 5 [] []]" and p = fresh and t = 1 and idx = "\<lambda>_. 0"
      and cb = "[Field 1 5 [] [], Field 1 6 [] []]"
      and q = "\<lparr>key_prefix = \<lparr>flat_key = [], key = []\<rparr>,
                 delegate = [AddInteger \<lparr>flat_key = ''x'', key = ''x''\<rparr> 5]\<rparr>"]
  from inst h1 h2 h3 pre
  have "ParseMessage MC_pool (\<lambda>_. None) ([Field 1 5 [] []] @ [Field 1 6 [] []]) ''M'' None fresh =
        ParseField MC_pool (\<lambda>_. None) x_fd 0 (Field 1 6 [] [])
          \<lparr>key_prefix = \<lparr>flat_key = [], key = []\<rparr>,
           delegate = [AddInteger \<lparr>flat_key = ''x'', key = ''x''\<rparr> 5]\<rparr>"
    by blast
  moreover from inst h2 h3
  have "fst (snd (ParseMessage_loop MC_pool (\<lambda>_. None) M_desc None
               [Field 1 5 [] [], Field 1 6 [] []] (\<lambda>_. 0) fresh)) 1 = 0"
    by blast
  ultimately show ?thesis
    by (simp add: eval_defs example_defs)
qed

end
